theory Spec2Isabelle
  imports Main "HOL-Library.Sublist"
begin

section \<open>Strings and thrown values\<close>

text \<open>
  The program is the VS Code extension \<^verbatim>\<open>src/extension.ts\<close>. A JavaScript string is
  modelled by a HOL \<open>string\<close>; a \<open>char\<close> stands for one UTF-16 code unit in the range
  U+0000 .. U+00FF. Calls that only log or notify (\<^verbatim>\<open>outputChannel.appendLine\<close>,
  \<^verbatim>\<open>vscode.window.show...Message\<close>) do not influence any returned value and are left out.

  A value thrown by JavaScript code is either an \<^verbatim>\<open>Error\<close> object, which carries a
  message, or some other value. The source reads a caught value only through
  \<^verbatim>\<open>error instanceof Error ? error.message : 'Unknown error'\<close>.
\<close>

datatype thrown = ErrorObj string | NonError

definition errorMessage :: "thrown \<Rightarrow> string" where
  "errorMessage error = (case error of ErrorObj m \<Rightarrow> m | NonError \<Rightarrow> ''Unknown error'')"

text \<open>\<^verbatim>\<open>s.startsWith(t)\<close>, \<^verbatim>\<open>s.endsWith('/')\<close>, \<^verbatim>\<open>s.includes('*')\<close>, \<^verbatim>\<open>s.slice(0, -1)\<close>.\<close>

fun startsWith :: "string \<Rightarrow> string \<Rightarrow> bool" where
  "startsWith s [] = True"
| "startsWith [] (t # ts) = False"
| "startsWith (c # cs) (t # ts) = (c = t \<and> startsWith cs ts)"

definition endsWithSlash :: "string \<Rightarrow> bool" where
  "endsWithSlash s = (s \<noteq> [] \<and> last s = CHR ''/'')"

definition includesStar :: "string \<Rightarrow> bool" where
  "includesStar s = (CHR ''*'' \<in> set s)"

definition slice0m1 :: "string \<Rightarrow> string" where
  "slice0m1 s = butlast s"

text \<open>\<^verbatim>\<open>pattern.replace(/\*/g, '.*')\<close> and \<^verbatim>\<open>p.replace(/\\/g, '/')\<close>.\<close>

fun replaceStar :: "string \<Rightarrow> string" where
  "replaceStar [] = []"
| "replaceStar (c # cs) =
     (if c = CHR ''*'' then CHR ''.'' # CHR ''*'' # replaceStar cs else c # replaceStar cs)"

fun replaceBackslash :: "string \<Rightarrow> string" where
  "replaceBackslash [] = []"
| "replaceBackslash (c # cs) =
     (if c = CHR 0x5C then CHR ''/'' # replaceBackslash cs else c # replaceBackslash cs)"

section \<open>The regular expressions of the wildcard rule\<close>

text \<open>
  \<^verbatim>\<open>new RegExp(src).test(s)\<close> is a service of the JavaScript runtime. Its ECMAScript
  semantics is written out for the sources built from pattern characters, \<^verbatim>\<open>.\<close> and
  the quantifier \<^verbatim>\<open>*\<close> after one of these: a sequence of terms, each an atom or a
  starred atom. A pattern character is any character that is not one of the syntax
  characters \<^verbatim>\<open>^ $ \ . * + ? ( ) [ ] { } |\<close>. For every other source the runtime's answer
  (a boolean, or a thrown \<^verbatim>\<open>SyntaxError\<close>) is the parameter \<open>host\<close> of the model.

  Without the \<^verbatim>\<open>s\<close> flag, \<^verbatim>\<open>.\<close> matches any single code unit except a line terminator;
  of the four line terminators LF, CR, U+2028 and U+2029 the first two are \<open>char\<close>s.
\<close>

type_synonym regexp_host = "string \<Rightarrow> string \<Rightarrow> thrown + bool"

datatype re_atom = PatternChar char | Dot

datatype re_term = Once re_atom | Star re_atom

definition isSyntaxChar :: "char \<Rightarrow> bool" where
  "isSyntaxChar c = (c \<in> set ''^$.*+?()[]{}|'' \<or> c = CHR 0x5C)"

definition isLineTerminator :: "char \<Rightarrow> bool" where
  "isLineTerminator c = (c = CHR 0x0A \<or> c = CHR 0x0D)"

definition atomOf :: "char \<Rightarrow> re_atom" where
  "atomOf c = (if c = CHR ''.'' then Dot else PatternChar c)"

fun parseRegExp :: "string \<Rightarrow> re_term list option" where
  "parseRegExp [] = Some []"
| "parseRegExp (c # cs) =
     (if isSyntaxChar c \<and> c \<noteq> CHR ''.'' then None
      else (case cs of
              [] \<Rightarrow> Some [Once (atomOf c)]
            | d # rest \<Rightarrow>
                if d = CHR ''*''
                then map_option ((#) (Star (atomOf c))) (parseRegExp rest)
                else map_option ((#) (Once (atomOf c))) (parseRegExp cs)))"

fun atomMatches :: "re_atom \<Rightarrow> char \<Rightarrow> bool" where
  "atomMatches (PatternChar x) c = (c = x)"
| "atomMatches Dot c = (\<not> isLineTerminator c)"

text \<open>
  \<open>matchTerms ts s\<close>: the terms match some prefix of \<open>s\<close> (the backtracking matcher of
  the language standard, whose continuation here always succeeds at the end of the terms).
\<close>

fun matchTerms :: "re_term list \<Rightarrow> string \<Rightarrow> bool" where
  "matchTerms [] s = True"
| "matchTerms (Once a # ts) [] = False"
| "matchTerms (Once a # ts) (c # cs) = (atomMatches a c \<and> matchTerms ts cs)"
| "matchTerms (Star a # ts) [] = matchTerms ts []"
| "matchTerms (Star a # ts) (c # cs) =
     ((atomMatches a c \<and> matchTerms (Star a # ts) cs) \<or> matchTerms ts (c # cs))"

text \<open>\<^verbatim>\<open>test\<close> without flags tries every start index from 0 to the length of the string.\<close>

fun searchFrom :: "re_term list \<Rightarrow> string \<Rightarrow> bool" where
  "searchFrom ts [] = matchTerms ts []"
| "searchFrom ts (c # cs) = (matchTerms ts (c # cs) \<or> searchFrom ts cs)"

definition RegExp_test :: "regexp_host \<Rightarrow> string \<Rightarrow> string \<Rightarrow> thrown + bool" where
  "RegExp_test host src s =
     (case parseRegExp src of
        Some ts \<Rightarrow> Inr (searchFrom ts s)
      | None \<Rightarrow> host src s)"

section \<open>Pattern Matcher: shouldIgnorePath\<close>

text \<open>The callback of \<^verbatim>\<open>ignorePatterns.some\<close>: the three branches of the source, in its order.\<close>

definition patternMatches :: "regexp_host \<Rightarrow> string \<Rightarrow> string \<Rightarrow> thrown + bool" where
  "patternMatches host relativePath pattern =
     (if endsWithSlash pattern
      then Inr (startsWith relativePath pattern \<or> startsWith relativePath (slice0m1 pattern))
      else if includesStar pattern
      then RegExp_test host (replaceStar pattern) relativePath
      else Inr (relativePath = pattern \<or> startsWith relativePath (pattern @ ''/'')))"

text \<open>\<^verbatim>\<open>some\<close> stops at the first pattern that matches; a throw of the callback leaves it.\<close>

fun shouldIgnorePath :: "regexp_host \<Rightarrow> string \<Rightarrow> string list \<Rightarrow> thrown + bool" where
  "shouldIgnorePath host relativePath [] = Inr False"
| "shouldIgnorePath host relativePath (pattern # rest) =
     (case patternMatches host relativePath pattern of
        Inl error \<Rightarrow> Inl error
      | Inr True \<Rightarrow> Inr True
      | Inr False \<Rightarrow> shouldIgnorePath host relativePath rest)"

section \<open>Paths\<close>

text \<open>
  \<^verbatim>\<open>path.join(dirPath, entry.name)\<close> and \<^verbatim>\<open>path.relative(rootPath, fullPath)\<close> of Node's
  POSIX \<^verbatim>\<open>path\<close> module, for the arguments the walker passes: normalized absolute
  directory paths and a plain entry name. \<^verbatim>\<open>path.relative\<close> drops the segments that both
  paths share, climbs with \<^verbatim>\<open>..\<close> out of what is left of the first path and descends
  along what is left of the second.
\<close>

fun splitOnSlash :: "string \<Rightarrow> string \<Rightarrow> string list" where
  "splitOnSlash cur [] = [cur]"
| "splitOnSlash cur (c # cs) =
     (if c = CHR ''/'' then cur # splitOnSlash [] cs else splitOnSlash (cur @ [c]) cs)"

definition segments :: "string \<Rightarrow> string list" where
  "segments p = filter (\<lambda>s. s \<noteq> []) (splitOnSlash [] p)"

fun dropCommon :: "string list \<Rightarrow> string list \<Rightarrow> string list \<times> string list" where
  "dropCommon (x # xs) (y # ys) = (if x = y then dropCommon xs ys else (x # xs, y # ys))"
| "dropCommon xs ys = (xs, ys)"

text \<open>\<^verbatim>\<open>array.join(sep)\<close>.\<close>

fun joinWith :: "string \<Rightarrow> string list \<Rightarrow> string" where
  "joinWith sep [] = []"
| "joinWith sep [x] = x"
| "joinWith sep (x # y # ys) = x @ sep @ joinWith sep (y # ys)"

definition path_join :: "string \<Rightarrow> string \<Rightarrow> string" where
  "path_join dir entryName =
     (if dir = [] then entryName
      else if last dir = CHR ''/'' then dir @ entryName
      else dir @ ''/'' @ entryName)"

definition path_relative :: "string \<Rightarrow> string \<Rightarrow> string" where
  "path_relative from to =
     (case dropCommon (segments from) (segments to) of
        (up, down) \<Rightarrow> joinWith ''/'' (replicate (length up) ''..'' @ down))"

section \<open>Tree Walker: getAllFilesAndFolders\<close>

text \<open>
  The file system below a directory, as \<^verbatim>\<open>fs.promises.readdir(dirPath, {withFileTypes: true})\<close>
  shows it: the call is rejected with a thrown value or resolves to the entries in the
  order of the listing; an entry has a name and is a directory (with what listing it
  gives in turn) or something else. A symbolic link is not a directory for
  \<^verbatim>\<open>entry.isDirectory()\<close>, so the walk follows a finite tree.
\<close>

datatype dirent = FileEntry string | DirEntry string readdir
and readdir = Rejects thrown | Resolves "dirent list"

fun name :: "dirent \<Rightarrow> string" where
  "name (FileEntry n) = n"
| "name (DirEntry n sub) = n"

text \<open>
  \<open>getAllFilesAndFolders host fs dirPath indent ignorePatterns rootPath\<close>, where \<open>fs\<close> is what
  listing \<open>dirPath\<close> gives. \<open>forEntries\<close> is the \<^verbatim>\<open>for (const entry of entries)\<close> loop with
  its variable \<^verbatim>\<open>result\<close>. The outer \<^verbatim>\<open>try\<close> covers the listing and the whole loop, the
  inner one the recursive call only.
\<close>

fun getAllFilesAndFolders ::
  "regexp_host \<Rightarrow> readdir \<Rightarrow> string \<Rightarrow> string \<Rightarrow> string list \<Rightarrow> string \<Rightarrow> thrown + string list"
and forEntries ::
  "regexp_host \<Rightarrow> dirent list \<Rightarrow> string \<Rightarrow> string \<Rightarrow> string list \<Rightarrow> string \<Rightarrow> string list
     \<Rightarrow> thrown + string list"
where
  "getAllFilesAndFolders host (Rejects error) dirPath indent ignorePatterns rootPath =
     Inl (ErrorObj (''Failed to read directory '' @ dirPath @ '': '' @ errorMessage error))"
| "getAllFilesAndFolders host (Resolves entries) dirPath indent ignorePatterns rootPath =
     (case forEntries host entries dirPath indent ignorePatterns rootPath [] of
        Inl error \<Rightarrow>
          Inl (ErrorObj (''Failed to read directory '' @ dirPath @ '': '' @ errorMessage error))
      | Inr result \<Rightarrow> Inr result)"
| "forEntries host [] dirPath indent ignorePatterns rootPath result = Inr result"
| "forEntries host (entry # rest) dirPath indent ignorePatterns rootPath result =
     (let fullPath = path_join dirPath (name entry);
          relativePath = replaceBackslash (path_relative rootPath fullPath)
      in case shouldIgnorePath host relativePath ignorePatterns of
           Inl error \<Rightarrow> Inl error
         | Inr True \<Rightarrow> forEntries host rest dirPath indent ignorePatterns rootPath result
         | Inr False \<Rightarrow>
             (let result1 = result @ [indent @ name entry]
              in case entry of
                   FileEntry n \<Rightarrow>
                     forEntries host rest dirPath indent ignorePatterns rootPath result1
                 | DirEntry n sub \<Rightarrow>
                     (case getAllFilesAndFolders host sub fullPath (indent @ ''  '')
                             ignorePatterns rootPath of
                        Inr subResults \<Rightarrow>
                          forEntries host rest dirPath indent ignorePatterns rootPath
                            (result1 @ subResults)
                      | Inl error \<Rightarrow>
                          forEntries host rest dirPath indent ignorePatterns rootPath
                            (result1 @
                             [indent @ ''  [Error reading directory: '' @ errorMessage error @ '']'']))))"

section \<open>Pattern loading: loadIgnorePatterns\<close>

text \<open>
  \<^verbatim>\<open>content.split(/\r?\n/)\<close>: a line ends at LF, and a CR right before that LF belongs to
  the separator. \<^verbatim>\<open>line.trim()\<close> strips white space and line terminators at both ends;
  those below U+0100 are TAB, LF, VT, FF, CR, SP and NBSP.
\<close>

fun splitLines :: "string \<Rightarrow> string \<Rightarrow> string list" where
  "splitLines cur [] = [cur]"
| "splitLines cur (c # cs) =
     (if c = CHR 0x0A then cur # splitLines [] cs
      else if c = CHR 0x0D \<and> cs \<noteq> [] \<and> hd cs = CHR 0x0A then cur # splitLines [] (tl cs)
      else splitLines (cur @ [c]) cs)"

definition isWhiteSpace :: "char \<Rightarrow> bool" where
  "isWhiteSpace c = (c \<in> {CHR 0x09, CHR 0x0A, CHR 0x0B, CHR 0x0C, CHR 0x0D, CHR 0x20, CHR 0xA0})"

definition trim :: "string \<Rightarrow> string" where
  "trim s = rev (dropWhile isWhiteSpace (rev (dropWhile isWhiteSpace s)))"

text \<open>The argument is the outcome of \<^verbatim>\<open>fs.promises.readFile(ignoreFilePath, 'utf8')\<close>.\<close>

definition loadIgnorePatterns :: "thrown + string \<Rightarrow> string list" where
  "loadIgnorePatterns readFile =
     (case readFile of
        Inr content \<Rightarrow>
          filter (\<lambda>line. line \<noteq> [] \<and> \<not> startsWith line ''#'')
            (map trim (splitLines [] content))
      | Inl error \<Rightarrow> [])"

section \<open>Multi-root orchestration: extractFileStructure\<close>

text \<open>
  A workspace folder with what the file system answers for it: whether
  \<^verbatim>\<open>.filetreeignore\<close> is accessible, the outcome of writing the default file, the
  outcome of reading the file, and the listing of the root.
\<close>

record workspaceFolder =
  wsName :: string
  fsPath :: string
  ignoreFileAccess :: bool
  ignoreFileWrite :: "thrown option"
  ignoreFileRead :: "thrown + string"
  rootListing :: readdir

definition ensureFileTreeIgnoreExists :: "workspaceFolder \<Rightarrow> thrown + unit" where
  "ensureFileTreeIgnoreExists folder =
     (if ignoreFileAccess folder then Inr ()
      else (case ignoreFileWrite folder of
              None \<Rightarrow> Inr ()
            | Some error \<Rightarrow>
                Inl (ErrorObj (''Failed to create .filetreeignore: '' @ errorMessage error))))"

text \<open>The body of the loop over the workspace folders: the string it pushes on \<^verbatim>\<open>results\<close>.\<close>

definition processWorkspace :: "regexp_host \<Rightarrow> nat \<Rightarrow> workspaceFolder \<Rightarrow> string" where
  "processWorkspace host count folder =
     (case (case ensureFileTreeIgnoreExists folder of
              Inl error \<Rightarrow> Inl error
            | Inr u \<Rightarrow>
                getAllFilesAndFolders host (rootListing folder) (fsPath folder) []
                  (loadIgnorePatterns (ignoreFileRead folder)) (fsPath folder)) of
        Inr structure \<Rightarrow>
          if count > 1
          then [CHR 0x0A] @ ''=== Workspace: '' @ wsName folder @ '' ==='' @ [CHR 0x0A]
               @ joinWith [CHR 0x0A] structure
          else joinWith [CHR 0x0A] structure
      | Inl error \<Rightarrow>
          if count > 1
          then [CHR 0x0A] @ ''=== Workspace: '' @ wsName folder @ '' ==='' @ [CHR 0x0A]
               @ ''[Error: '' @ errorMessage error @ '']''
          else ''[Error: '' @ errorMessage error @ '']'')"

fun forWorkspaceFolders ::
  "regexp_host \<Rightarrow> nat \<Rightarrow> workspaceFolder list \<Rightarrow> string list \<Rightarrow> string list" where
  "forWorkspaceFolders host count [] results = results"
| "forWorkspaceFolders host count (folder # rest) results =
     forWorkspaceFolders host count rest (results @ [processWorkspace host count folder])"

text \<open>
  The text that \<^verbatim>\<open>extractFileStructure\<close> hands to the file and to the clipboard:
  \<^verbatim>\<open>results.join('\n')\<close>. There is none when no workspace is open or when the prompt for
  the output file name gives nothing.
\<close>

definition extractFileStructure ::
  "regexp_host \<Rightarrow> workspaceFolder list \<Rightarrow> string option \<Rightarrow> string option" where
  "extractFileStructure host workspaceFolders outputFileName =
     (if workspaceFolders = [] then None
      else if outputFileName = None \<or> outputFileName = Some [] then None
      else Some (joinWith [CHR 0x0A]
                  (forWorkspaceFolders host (length workspaceFolders) workspaceFolders [])))"

section \<open>Notions used to state the properties\<close>

text \<open>
  The value of the walker's variable \<^verbatim>\<open>relativePath\<close> for an entry of \<open>dirPath\<close>, and the
  lines that one entry which is not ignored adds to \<^verbatim>\<open>result\<close>: its own line and, for a
  directory, either the lines of the recursive call or the line of the inner \<^verbatim>\<open>catch\<close>.
\<close>

definition relativePathOf :: "string \<Rightarrow> string \<Rightarrow> string \<Rightarrow> string" where
  "relativePathOf rootPath dirPath entryName =
     replaceBackslash (path_relative rootPath (path_join dirPath entryName))"

definition entryLines ::
  "regexp_host \<Rightarrow> dirent \<Rightarrow> string \<Rightarrow> string \<Rightarrow> string list \<Rightarrow> string \<Rightarrow> string list" where
  "entryLines host entry dirPath indent pats root =
     (indent @ name entry)
     # (case entry of
          FileEntry n \<Rightarrow> []
        | DirEntry n sub \<Rightarrow>
            (case getAllFilesAndFolders host sub (path_join dirPath n) (indent @ ''  '') pats root of
               Inr subResults \<Rightarrow> subResults
             | Inl error \<Rightarrow>
                 [indent @ ''  [Error reading directory: '' @ errorMessage error @ '']'']))"

definition indentOf :: "nat \<Rightarrow> string" where
  "indentOf depth = replicate (2 * depth) CHR '' ''"

text \<open>
  A regular expression host for concrete runs: it rejects every source that the model
  of \<open>RegExp_test\<close> passes on to it.
\<close>

definition rejectingHost :: regexp_host where
  "rejectingHost src s = Inl (ErrorObj ''Invalid regular expression'')"

subsection \<open>The wildcard rule in the words of the specification\<close>

text \<open>
  \<open>wildcardMatches ok p w\<close>: the pattern \<open>p\<close> matches the whole text \<open>w\<close>, where \<^verbatim>\<open>*\<close>
  stands for any sequence of characters that satisfy \<open>ok\<close>, \<^verbatim>\<open>.\<close> for any single such
  character, and every other character for itself. The specification speaks of any
  character at all (\<open>anyCharacter\<close>); the regular expression built by the code lets
  \<^verbatim>\<open>.\<close> stand for the characters that are not line terminators (\<open>notLineTerminator\<close>).
\<close>

definition anyCharacter :: "char \<Rightarrow> bool" where
  "anyCharacter c = True"

definition notLineTerminator :: "char \<Rightarrow> bool" where
  "notLineTerminator c = (\<not> isLineTerminator c)"

primrec wildcardMatches :: "(char \<Rightarrow> bool) \<Rightarrow> string \<Rightarrow> string \<Rightarrow> bool" where
  "wildcardMatches ok [] w = (w = [])"
| "wildcardMatches ok (c # p) w =
     (if c = CHR ''*''
      then (\<exists>k \<in> set [0 ..< Suc (length w)].
              list_all ok (take k w) \<and> wildcardMatches ok p (drop k w))
      else (case w of
              [] \<Rightarrow> False
            | x # w' \<Rightarrow> (if c = CHR ''.'' then ok x else x = c) \<and> wildcardMatches ok p w'))"

text \<open>The term that the translated pattern has for a character of the pattern.\<close>

definition termOf :: "char \<Rightarrow> re_term" where
  "termOf c = (if c = CHR ''*'' then Star Dot else Once (atomOf c))"

definition plainPattern :: "string \<Rightarrow> bool" where
  "plainPattern p = (\<forall>c \<in> set p. isSyntaxChar c \<longrightarrow> c = CHR ''*'' \<or> c = CHR ''.'')"

subsection \<open>The Tree Walker in the words of the specification\<close>

text \<open>
  A TreeLine is an indentation depth with a display text, rendered as two spaces per
  depth level followed by the text. \<open>walk\<close> follows the algorithm of the specification
  for a directory that could be listed: the entries in the order of the listing; an
  ignored entry gives nothing; any other entry gives a line with its bare name at the
  current depth, followed for a directory by the lines of its entries one level deeper,
  or by one error annotation one level deeper when its listing fails.
\<close>

datatype treeLine = TreeLine nat string

fun render :: "treeLine \<Rightarrow> string" where
  "render (TreeLine depth displayText) = replicate (2 * depth) CHR '' '' @ displayText"

fun walk ::
  "regexp_host \<Rightarrow> dirent list \<Rightarrow> string \<Rightarrow> nat \<Rightarrow> string list \<Rightarrow> string \<Rightarrow> treeLine list" where
  "walk host [] directoryPath depth patterns rootPath = []"
| "walk host (entry # rest) directoryPath depth patterns rootPath =
     (if shouldIgnorePath host (relativePathOf rootPath directoryPath (name entry)) patterns
           = Inr True
      then walk host rest directoryPath depth patterns rootPath
      else TreeLine depth (name entry)
           # (case entry of
                FileEntry n \<Rightarrow> []
              | DirEntry n (Rejects error) \<Rightarrow>
                  [TreeLine (depth + 1)
                     (''[Error reading directory: Failed to read directory ''
                      @ path_join directoryPath n @ '': '' @ errorMessage error @ '']'')]
              | DirEntry n (Resolves entries) \<Rightarrow>
                  walk host entries (path_join directoryPath n) (depth + 1) patterns rootPath)
           @ walk host rest directoryPath depth patterns rootPath)"

text \<open>
  The entries of a directory with every ignored entry removed, together with all that
  is beneath it, at every level.
\<close>

fun withoutIgnored ::
  "regexp_host \<Rightarrow> dirent list \<Rightarrow> string \<Rightarrow> string list \<Rightarrow> string \<Rightarrow> dirent list" where
  "withoutIgnored host [] dirPath patterns rootPath = []"
| "withoutIgnored host (entry # rest) dirPath patterns rootPath =
     (if shouldIgnorePath host (relativePathOf rootPath dirPath (name entry)) patterns = Inr True
      then withoutIgnored host rest dirPath patterns rootPath
      else (case entry of
              FileEntry n \<Rightarrow> entry
            | DirEntry n (Rejects error) \<Rightarrow> entry
            | DirEntry n (Resolves entries) \<Rightarrow>
                DirEntry n
                  (Resolves (withoutIgnored host entries (path_join dirPath n) patterns rootPath)))
           # withoutIgnored host rest dirPath patterns rootPath)"

subsection \<open>Pattern loading in the words of the specification\<close>

text \<open>
  The lines of a text whose lines end with LF or with CR LF: the pieces between the
  LFs, each piece before an LF without the CR it may end with. \<open>remainingLines\<close> drops
  the blank lines and the lines that start with \<^verbatim>\<open>#\<close> and keeps the others as they are.
\<close>

fun pieces :: "string \<Rightarrow> string list" where
  "pieces [] = [[]]"
| "pieces (c # cs) =
     (if c = CHR 0x0A then [] # pieces cs
      else (case pieces cs of [] \<Rightarrow> [[c]] | x # xs \<Rightarrow> (c # x) # xs))"

definition withoutCR :: "string \<Rightarrow> string" where
  "withoutCR line = (if line \<noteq> [] \<and> last line = CHR 0x0D then butlast line else line)"

definition linesOf :: "string \<Rightarrow> string list" where
  "linesOf content = map withoutCR (butlast (pieces content)) @ [last (pieces content)]"

definition remainingLines :: "string \<Rightarrow> string list" where
  "remainingLines content =
     filter (\<lambda>line. \<not> list_all isWhiteSpace line \<and> \<not> prefix ''#'' line) (linesOf content)"

subsection \<open>The line sequence of one root\<close>

text \<open>
  What one workspace folder contributes: the lines of its walk, or the single line
  \<^verbatim>\<open>[Error: ...]\<close> when preparing the ignore file or walking the root throws.
\<close>

definition rootLines :: "regexp_host \<Rightarrow> workspaceFolder \<Rightarrow> string list" where
  "rootLines host folder =
     (case (case ensureFileTreeIgnoreExists folder of
              Inl error \<Rightarrow> Inl error
            | Inr u \<Rightarrow>
                getAllFilesAndFolders host (rootListing folder) (fsPath folder) []
                  (loadIgnorePatterns (ignoreFileRead folder)) (fsPath folder)) of
        Inr structure \<Rightarrow> structure
      | Inl error \<Rightarrow> [''[Error: '' @ errorMessage error @ '']''])"

section \<open>Facts about the string operations\<close>

lemma startsWith_prefix: "startsWith s t = prefix t s"
  by (induction s t rule: startsWith.induct) auto

lemma endsWithSlash_suffix: "endsWithSlash p = suffix ''/'' p"
proof (cases p rule: rev_cases)
  case Nil
  then show ?thesis by (simp add: endsWithSlash_def)
next
  case (snoc q c)
  then show ?thesis by (auto simp: endsWithSlash_def suffix_def)
qed

lemma shouldIgnorePath_single:
  "shouldIgnorePath host rp [p] = patternMatches host rp p"
  by (simp split: sum.splits bool.splits)

lemmas matcher_defs =
  patternMatches_def endsWithSlash_def includesStar_def slice0m1_def RegExp_test_def
  isSyntaxChar_def atomOf_def isLineTerminator_def

section \<open>The three matching rules\<close>

text \<open>
  Claim C2. For every pattern that ends with \<^verbatim>\<open>/\<close>, \<open>shouldIgnorePath\<close> reports a match
  exactly when the relative path starts with the full pattern text or starts with the
  pattern text without its trailing \<^verbatim>\<open>/\<close>. In particular \<^verbatim>\<open>node_modules/\<close> matches
  \<^verbatim>\<open>node_modules/x.js\<close> and \<^verbatim>\<open>node_modules\<close>, and does not match \<^verbatim>\<open>not_node_modules/x\<close>.
\<close>

theorem directory_pattern_rule:
  "(suffix ''/'' p \<longrightarrow>
      shouldIgnorePath host relativePath [p]
        = Inr (prefix p relativePath \<or> prefix (butlast p) relativePath))
   \<and> shouldIgnorePath host ''node_modules/x.js'' [''node_modules/''] = Inr True
   \<and> shouldIgnorePath host ''node_modules'' [''node_modules/''] = Inr True
   \<and> shouldIgnorePath host ''not_node_modules/x'' [''node_modules/''] = Inr False"
proof (intro conjI impI)
  assume "suffix ''/'' p"
  then have "endsWithSlash p" by (simp add: endsWithSlash_suffix)
  then show "shouldIgnorePath host relativePath [p]
        = Inr (prefix p relativePath \<or> prefix (butlast p) relativePath)"
    unfolding shouldIgnorePath_single
    by (simp add: patternMatches_def slice0m1_def startsWith_prefix)
qed (simp_all add: matcher_defs)

theorem directory_pattern_rule_witness:
  "suffix ''/'' ''logs/''
   \<and> shouldIgnorePath (\<lambda>src s. Inr False) ''logs/today.txt'' [''logs/''] = Inr True"
  using directory_pattern_rule [of "''logs/''" "\<lambda>src s. Inr False" "''logs/today.txt''"]
  by (simp add: suffix_def)

text \<open>
  Claim C5. For every pattern without \<^verbatim>\<open>*\<close> that does not end with \<^verbatim>\<open>/\<close>,
  \<open>shouldIgnorePath\<close> reports a match exactly when the relative path equals the pattern
  or starts with the pattern followed by \<^verbatim>\<open>/\<close>. In particular \<^verbatim>\<open>src\<close> matches
  \<^verbatim>\<open>src/utils\<close> and does not match \<^verbatim>\<open>srcfoo\<close>.
\<close>

theorem exact_prefix_rule:
  "(CHR ''*'' \<notin> set p \<and> \<not> suffix ''/'' p \<longrightarrow>
      shouldIgnorePath host relativePath [p]
        = Inr (relativePath = p \<or> prefix (p @ ''/'') relativePath))
   \<and> shouldIgnorePath host ''src/utils'' [''src''] = Inr True
   \<and> shouldIgnorePath host ''srcfoo'' [''src''] = Inr False"
proof (intro conjI impI)
  assume "CHR ''*'' \<notin> set p \<and> \<not> suffix ''/'' p"
  then have "\<not> endsWithSlash p" "\<not> includesStar p"
    by (simp_all add: endsWithSlash_suffix includesStar_def)
  then show "shouldIgnorePath host relativePath [p]
        = Inr (relativePath = p \<or> prefix (p @ ''/'') relativePath)"
    unfolding shouldIgnorePath_single
    by (simp add: patternMatches_def startsWith_prefix)
qed (simp_all add: matcher_defs)

theorem exact_prefix_rule_witness:
  "CHR ''*'' \<notin> set ''src'' \<and> \<not> suffix ''/'' ''src''
   \<and> shouldIgnorePath (\<lambda>src s. Inr True) ''src/utils/a.ts'' [''src''] = Inr True"
  using exact_prefix_rule [of "''src''" "\<lambda>src s. Inr True" "''src/utils/a.ts''"]
  by (simp add: suffix_def)

text \<open>
  Claim C10. Each pattern is handled by exactly one of the three rules, and the
  trailing \<^verbatim>\<open>/\<close> is looked at first, \<^verbatim>\<open>*\<close> second: a pattern that ends with \<^verbatim>\<open>/\<close> gets
  the directory rule whether or not it contains \<^verbatim>\<open>*\<close>, a pattern with \<^verbatim>\<open>*\<close> and no
  trailing \<^verbatim>\<open>/\<close> gets the wildcard rule, any other pattern the exact/prefix rule. So
  \<^verbatim>\<open>foo*/\<close> matches \<^verbatim>\<open>foo*/x\<close>, where the star is a literal character, and does not match
  \<^verbatim>\<open>fooBAR/x\<close>, which the wildcard rule would have matched.
\<close>

theorem rule_dispatch_precedence:
  "(suffix ''/'' p \<longrightarrow>
      shouldIgnorePath host relativePath [p]
        = Inr (prefix p relativePath \<or> prefix (butlast p) relativePath))
   \<and> (\<not> suffix ''/'' p \<and> CHR ''*'' \<in> set p \<longrightarrow>
      shouldIgnorePath host relativePath [p] = RegExp_test host (replaceStar p) relativePath)
   \<and> (\<not> suffix ''/'' p \<and> CHR ''*'' \<notin> set p \<longrightarrow>
      shouldIgnorePath host relativePath [p]
        = Inr (relativePath = p \<or> prefix (p @ ''/'') relativePath))
   \<and> shouldIgnorePath host ''foo*/x'' [''foo*/''] = Inr True
   \<and> shouldIgnorePath host ''fooBAR/x'' [''foo*/''] = Inr False
   \<and> RegExp_test host (replaceStar ''foo*/'') ''fooBAR/x'' = Inr True"
proof (intro conjI impI)
  assume "suffix ''/'' p"
  then have "endsWithSlash p" by (simp add: endsWithSlash_suffix)
  then show "shouldIgnorePath host relativePath [p]
        = Inr (prefix p relativePath \<or> prefix (butlast p) relativePath)"
    unfolding shouldIgnorePath_single
    by (simp add: patternMatches_def slice0m1_def startsWith_prefix)
next
  assume "\<not> suffix ''/'' p \<and> CHR ''*'' \<in> set p"
  then have "\<not> endsWithSlash p" "includesStar p"
    by (simp_all add: endsWithSlash_suffix includesStar_def)
  then show "shouldIgnorePath host relativePath [p]
        = RegExp_test host (replaceStar p) relativePath"
    unfolding shouldIgnorePath_single by (simp add: patternMatches_def)
next
  assume "\<not> suffix ''/'' p \<and> CHR ''*'' \<notin> set p"
  then have "\<not> endsWithSlash p" "\<not> includesStar p"
    by (simp_all add: endsWithSlash_suffix includesStar_def)
  then show "shouldIgnorePath host relativePath [p]
        = Inr (relativePath = p \<or> prefix (p @ ''/'') relativePath)"
    unfolding shouldIgnorePath_single
    by (simp add: patternMatches_def startsWith_prefix)
qed (simp_all add: matcher_defs)

theorem rule_dispatch_precedence_witness:
  "suffix ''/'' ''a*/'' \<and> CHR ''*'' \<in> set ''a*/''
   \<and> shouldIgnorePath (\<lambda>src s. Inl NonError) ''abc/d'' [''a*/''] = Inr False
   \<and> \<not> suffix ''/'' ''a*c'' \<and> CHR ''*'' \<in> set ''a*c''
   \<and> shouldIgnorePath (\<lambda>src s. Inl NonError) ''abc/d'' [''a*c''] = Inr True
   \<and> \<not> suffix ''/'' ''abc'' \<and> CHR ''*'' \<notin> set ''abc''
   \<and> shouldIgnorePath (\<lambda>src s. Inl NonError) ''abc/d'' [''abc''] = Inr True"
  using rule_dispatch_precedence [of "''a*/''" "\<lambda>src s. Inl NonError" "''abc/d''"]
    rule_dispatch_precedence [of "''a*c''" "\<lambda>src s. Inl NonError" "''abc/d''"]
    rule_dispatch_precedence [of "''abc''" "\<lambda>src s. Inl NonError" "''abc/d''"]
  by (simp add: suffix_def RegExp_test_def isSyntaxChar_def atomOf_def isLineTerminator_def)

text \<open>
  Claim C3 says that for a directory pattern the check against the pattern without its
  trailing \<^verbatim>\<open>/\<close> matters only for a path equal to that text. The code tests
  \<^verbatim>\<open>startsWith\<close> there, so the directory pattern \<^verbatim>\<open>.git/\<close> of the default ignore file also
  matches \<^verbatim>\<open>.gitignore\<close>, a path that neither starts with \<^verbatim>\<open>.git/\<close> nor equals \<^verbatim>\<open>.git\<close>;
  the exact/prefix rule for \<^verbatim>\<open>.git\<close> does not match it.
\<close>

theorem directory_pattern_matches_longer_names:
  "shouldIgnorePath host ''.gitignore'' [''.git/''] = Inr True
   \<and> \<not> prefix ''.git/'' ''.gitignore''
   \<and> ''.gitignore'' \<noteq> butlast ''.git/''
   \<and> shouldIgnorePath host ''.gitignore'' [''.git''] = Inr False"
  by (simp add: matcher_defs)

section \<open>The wildcard rule\<close>

lemma replaceStar_no_leading_star: "replaceStar p = d # rest \<Longrightarrow> d \<noteq> CHR ''*''"
  by (cases p) (auto split: if_splits)

lemma parse_replaceStar:
  "plainPattern p \<Longrightarrow> parseRegExp (replaceStar p) = Some (map termOf p)"
proof (induction p)
  case Nil
  then show ?case by simp
next
  case (Cons c p)
  then have ih: "parseRegExp (replaceStar p) = Some (map termOf p)"
    by (simp add: plainPattern_def)
  show ?case
  proof (cases "c = CHR ''*''")
    case True
    with ih show ?thesis by (simp add: termOf_def atomOf_def isSyntaxChar_def)
  next
    case False
    with Cons.prems have ns: "\<not> (isSyntaxChar c \<and> c \<noteq> CHR ''.'')"
      by (auto simp: plainPattern_def)
    show ?thesis
    proof (cases "replaceStar p")
      case Nil
      with ih False ns show ?thesis by (cases p) (auto simp: termOf_def split: if_splits)
    next
      case (Cons d rest)
      with replaceStar_no_leading_star have "d \<noteq> CHR ''*''" by blast
      with Cons ih False ns show ?thesis by (simp add: termOf_def)
    qed
  qed
qed

lemma wildcardMatches_star:
  "wildcardMatches ok (CHR ''*'' # p) w =
     (\<exists>u v. w = u @ v \<and> list_all ok u \<and> wildcardMatches ok p v)"
proof
  assume "wildcardMatches ok (CHR ''*'' # p) w"
  then have "\<exists>k \<in> set [0 ..< Suc (length w)].
               list_all ok (take k w) \<and> wildcardMatches ok p (drop k w)"
    by (simp only: wildcardMatches.simps simp_thms if_True)
  then obtain k where "list_all ok (take k w)" "wildcardMatches ok p (drop k w)"
    by blast
  then have "w = take k w @ drop k w \<and> list_all ok (take k w) \<and> wildcardMatches ok p (drop k w)"
    by simp
  then show "\<exists>u v. w = u @ v \<and> list_all ok u \<and> wildcardMatches ok p v"
    by blast
next
  assume "\<exists>u v. w = u @ v \<and> list_all ok u \<and> wildcardMatches ok p v"
  then obtain u v where uv: "w = u @ v" "list_all ok u" "wildcardMatches ok p v"
    by blast
  then have "length u \<in> set [0 ..< Suc (length w)]"
    "list_all ok (take (length u) w)" "wildcardMatches ok p (drop (length u) w)"
    by simp_all
  then have "\<exists>k \<in> set [0 ..< Suc (length w)].
               list_all ok (take k w) \<and> wildcardMatches ok p (drop k w)"
    by blast
  then show "wildcardMatches ok (CHR ''*'' # p) w"
    by (simp only: wildcardMatches.simps simp_thms if_True)
qed

lemma wildcardMatches_char:
  "c \<noteq> CHR ''*'' \<Longrightarrow>
   wildcardMatches ok (c # p) w =
     (\<exists>x w'. w = x # w' \<and> (if c = CHR ''.'' then ok x else x = c) \<and> wildcardMatches ok p w')"
  by (cases w) simp_all

lemma matchTerms_Star:
  "matchTerms (Star a # ts) s =
     (\<exists>u v. s = u @ v \<and> list_all (atomMatches a) u \<and> matchTerms ts v)"
proof (induction s)
  case Nil
  then show ?case by simp
next
  case (Cons c cs)
  show ?case (is "?L = ?R")
  proof
    assume ?L
    then consider "atomMatches a c" "matchTerms (Star a # ts) cs" | "matchTerms ts (c # cs)"
      by auto
    then show ?R
    proof cases
      case 1
      with Cons.IH obtain u v where "cs = u @ v" "list_all (atomMatches a) u" "matchTerms ts v"
        by blast
      with 1 have "c # cs = (c # u) @ v \<and> list_all (atomMatches a) (c # u) \<and> matchTerms ts v"
        by simp
      then show ?thesis by blast
    next
      case 2
      then have "c # cs = [] @ (c # cs) \<and> list_all (atomMatches a) [] \<and> matchTerms ts (c # cs)"
        by simp
      then show ?thesis by blast
    qed
  next
    assume ?R
    then obtain u v where uv: "c # cs = u @ v" "list_all (atomMatches a) u" "matchTerms ts v"
      by blast
    show ?L
    proof (cases u)
      case Nil
      with uv have "matchTerms ts (c # cs)" by simp
      then show ?thesis by simp
    next
      case (Cons x u')
      with uv have "cs = u' @ v" "list_all (atomMatches a) u'" "atomMatches a c" by simp_all
      with uv(3) Cons.IH show ?thesis by auto
    qed
  qed
qed

lemma matchTerms_Once:
  "matchTerms (Once a # ts) s = (\<exists>x cs. s = x # cs \<and> atomMatches a x \<and> matchTerms ts cs)"
  by (cases s) simp_all

lemma atomMatches_atomOf:
  "atomMatches (atomOf c) x = (if c = CHR ''.'' then notLineTerminator x else x = c)"
  by (simp add: atomOf_def notLineTerminator_def)

lemma atomMatches_Dot: "atomMatches Dot = notLineTerminator"
  by (rule ext) (simp add: notLineTerminator_def)

lemma matchTerms_wildcard:
  "matchTerms (map termOf p) s = (\<exists>u v. s = u @ v \<and> wildcardMatches notLineTerminator p u)"
proof (induction p arbitrary: s)
  case Nil
  then show ?case by simp
next
  case (Cons c p)
  show ?case
  proof (cases "c = CHR ''*''")
    case True
    have "matchTerms (map termOf (c # p)) s =
            (\<exists>u v. s = u @ v \<and> list_all notLineTerminator u
                    \<and> (\<exists>u' v'. v = u' @ v' \<and> wildcardMatches notLineTerminator p u'))"
      using True by (simp add: termOf_def matchTerms_Star atomMatches_Dot Cons.IH del: matchTerms.simps)
    also have "\<dots> = (\<exists>x y. s = x @ y \<and>
                 (\<exists>u u'. x = u @ u' \<and> list_all notLineTerminator u
                    \<and> wildcardMatches notLineTerminator p u'))"
    proof (intro iffI; elim exE conjE)
      fix u v u' v'
      assume "s = u @ v" "list_all notLineTerminator u" "v = u' @ v'"
        "wildcardMatches notLineTerminator p u'"
      then have "s = (u @ u') @ v' \<and> (u @ u' = u @ u' \<and> list_all notLineTerminator u
                    \<and> wildcardMatches notLineTerminator p u')"
        by simp
      then show "\<exists>x y. s = x @ y \<and>
                 (\<exists>u u'. x = u @ u' \<and> list_all notLineTerminator u
                    \<and> wildcardMatches notLineTerminator p u')"
        by blast
    next
      fix x y u u'
      assume "s = x @ y" "x = u @ u'" "list_all notLineTerminator u"
        "wildcardMatches notLineTerminator p u'"
      then have "s = u @ (u' @ y) \<and> list_all notLineTerminator u
                    \<and> (u' @ y = u' @ y \<and> wildcardMatches notLineTerminator p u')"
        by simp
      then show "\<exists>u v. s = u @ v \<and> list_all notLineTerminator u
                    \<and> (\<exists>u' v'. v = u' @ v' \<and> wildcardMatches notLineTerminator p u')"
        by blast
    qed
    finally show ?thesis using True by (simp only: wildcardMatches_star)
  next
    case False
    have "matchTerms (map termOf (c # p)) s =
            (\<exists>x cs. s = x # cs \<and> (if c = CHR ''.'' then notLineTerminator x else x = c)
                    \<and> (\<exists>u v. cs = u @ v \<and> wildcardMatches notLineTerminator p u))"
      using False
      by (simp add: termOf_def matchTerms_Once atomMatches_atomOf Cons.IH del: matchTerms.simps)
    also have "\<dots> = (\<exists>u v. s = u @ v \<and>
                 (\<exists>x w'. u = x # w' \<and> (if c = CHR ''.'' then notLineTerminator x else x = c)
                    \<and> wildcardMatches notLineTerminator p w'))"
    proof (intro iffI; elim exE conjE)
      fix x cs u v
      assume "s = x # cs" "if c = CHR ''.'' then notLineTerminator x else x = c"
        "cs = u @ v" "wildcardMatches notLineTerminator p u"
      then have "s = (x # u) @ v \<and>
                 (x # u = x # u \<and> (if c = CHR ''.'' then notLineTerminator x else x = c)
                    \<and> wildcardMatches notLineTerminator p u)"
        by simp
      then show "\<exists>u v. s = u @ v \<and>
                 (\<exists>x w'. u = x # w' \<and> (if c = CHR ''.'' then notLineTerminator x else x = c)
                    \<and> wildcardMatches notLineTerminator p w')"
        by blast
    next
      fix u v x w'
      assume "s = u @ v" "u = x # w'" "if c = CHR ''.'' then notLineTerminator x else x = c"
        "wildcardMatches notLineTerminator p w'"
      then have "s = x # (w' @ v) \<and> (if c = CHR ''.'' then notLineTerminator x else x = c)
                    \<and> (w' @ v = w' @ v \<and> wildcardMatches notLineTerminator p w')"
        by simp
      then show "\<exists>x cs. s = x # cs \<and> (if c = CHR ''.'' then notLineTerminator x else x = c)
                    \<and> (\<exists>u v. cs = u @ v \<and> wildcardMatches notLineTerminator p u)"
        by blast
    qed
    finally show ?thesis by (simp only: wildcardMatches_char [OF False])
  qed
qed

lemma searchFrom_iff:
  "searchFrom ts s = (\<exists>pre rest. s = pre @ rest \<and> matchTerms ts rest)"
proof (induction s)
  case Nil
  then show ?case by simp
next
  case (Cons c cs)
  show ?case (is "?L = ?R")
  proof
    assume ?L
    then consider "matchTerms ts (c # cs)" | "searchFrom ts cs" by auto
    then show ?R
    proof cases
      case 1
      then have "c # cs = [] @ (c # cs) \<and> matchTerms ts (c # cs)" by simp
      then show ?thesis by blast
    next
      case 2
      with Cons.IH obtain pre rest where "cs = pre @ rest" "matchTerms ts rest" by blast
      then have "c # cs = (c # pre) @ rest \<and> matchTerms ts rest" by simp
      then show ?thesis by blast
    qed
  next
    assume ?R
    then obtain pre rest where pr: "c # cs = pre @ rest" "matchTerms ts rest" by blast
    show ?L
    proof (cases pre)
      case Nil
      with pr have "matchTerms ts (c # cs)" by simp
      then show ?thesis by simp
    next
      case (Cons x pre')
      with pr have "cs = pre' @ rest" by simp
      with pr(2) Cons.IH show ?thesis by auto
    qed
  qed
qed

lemma RegExp_test_wildcard:
  assumes "plainPattern p"
  shows "RegExp_test host (replaceStar p) s =
           Inr (\<exists>pre mid post. s = pre @ mid @ post \<and> wildcardMatches notLineTerminator p mid)"
  using assms
  by (simp add: RegExp_test_def parse_replaceStar searchFrom_iff matchTerms_wildcard) blast

lemma replaceStar_concat:
  "replaceStar p = concat (map (\<lambda>c. if c = CHR ''*'' then ''.*'' else [c]) p)"
  by (induction p) simp_all

text \<open>
  Claim C1, as amended. For every pattern that contains \<^verbatim>\<open>*\<close> and does not end with
  \<^verbatim>\<open>/\<close>, \<open>shouldIgnorePath\<close> replaces each \<^verbatim>\<open>*\<close> by \<^verbatim>\<open>.*\<close>, leaves every other character as
  it is, and tests the resulting regular expression against the relative path. When the
  other characters of the pattern are \<^verbatim>\<open>.\<close> or no syntax characters, the path matches
  exactly when some substring of it matches the pattern with \<^verbatim>\<open>*\<close> standing for any
  sequence of characters that are not line terminators, \<^verbatim>\<open>.\<close> for any single such
  character and every other character for itself: the match is not anchored and \<^verbatim>\<open>.\<close>
  is not escaped. In particular \<^verbatim>\<open>*.log\<close> matches \<^verbatim>\<open>foo.log\<close>, \<^verbatim>\<open>foo.log.bak\<close> and
  \<^verbatim>\<open>fooXlog\<close>.
\<close>

theorem wildcard_rule:
  "(CHR ''*'' \<in> set p \<and> \<not> suffix ''/'' p \<longrightarrow>
      shouldIgnorePath host relativePath [p] = RegExp_test host (replaceStar p) relativePath
      \<and> replaceStar p = concat (map (\<lambda>c. if c = CHR ''*'' then ''.*'' else [c]) p))
   \<and> (CHR ''*'' \<in> set p \<and> \<not> suffix ''/'' p
       \<and> (\<forall>c \<in> set p. isSyntaxChar c \<longrightarrow> c = CHR ''*'' \<or> c = CHR ''.'') \<longrightarrow>
      shouldIgnorePath host relativePath [p]
        = Inr (\<exists>pre mid post. relativePath = pre @ mid @ post
                 \<and> wildcardMatches notLineTerminator p mid))
   \<and> shouldIgnorePath host ''foo.log'' [''*.log''] = Inr True
   \<and> shouldIgnorePath host ''foo.log.bak'' [''*.log''] = Inr True
   \<and> shouldIgnorePath host ''fooXlog'' [''*.log''] = Inr True"
proof -
  have dispatch: "shouldIgnorePath host relativePath [p]
                    = RegExp_test host (replaceStar p) relativePath"
    if "CHR ''*'' \<in> set p \<and> \<not> suffix ''/'' p"
  proof -
    from that have "\<not> endsWithSlash p" "includesStar p"
      by (simp_all add: endsWithSlash_suffix includesStar_def)
    then show ?thesis
      unfolding shouldIgnorePath_single by (simp add: patternMatches_def)
  qed
  have meaning: "shouldIgnorePath host relativePath [p]
        = Inr (\<exists>pre mid post. relativePath = pre @ mid @ post
                 \<and> wildcardMatches notLineTerminator p mid)"
    if "CHR ''*'' \<in> set p \<and> \<not> suffix ''/'' p
       \<and> (\<forall>c \<in> set p. isSyntaxChar c \<longrightarrow> c = CHR ''*'' \<or> c = CHR ''.'')"
  proof -
    from that have d: "shouldIgnorePath host relativePath [p]
                         = RegExp_test host (replaceStar p) relativePath"
      using dispatch by blast
    from that have "plainPattern p" by (simp add: plainPattern_def)
    then show ?thesis
      unfolding d by (rule RegExp_test_wildcard)
  qed
  have examples: "shouldIgnorePath host ''foo.log'' [''*.log''] = Inr True"
    "shouldIgnorePath host ''foo.log.bak'' [''*.log''] = Inr True"
    "shouldIgnorePath host ''fooXlog'' [''*.log''] = Inr True"
    by (simp_all add: matcher_defs)
  from dispatch meaning examples replaceStar_concat show ?thesis
    by blast
qed

theorem wildcard_rule_witness:
  "CHR ''*'' \<in> set ''*.log'' \<and> \<not> suffix ''/'' ''*.log''
   \<and> filter (\<lambda>c. isSyntaxChar c \<and> c \<noteq> CHR ''*'' \<and> c \<noteq> CHR ''.'') ''*.log'' = []
   \<and> shouldIgnorePath rejectingHost ''foo.log.bak'' [''*.log''] = Inr True
   \<and> (\<exists>pre mid post. ''foo.log.bak'' = pre @ mid @ post
         \<and> wildcardMatches notLineTerminator ''*.log'' mid)"
proof -
  have f: "filter (\<lambda>c. isSyntaxChar c \<and> c \<noteq> CHR ''*'' \<and> c \<noteq> CHR ''.'') ''*.log'' = []"
    by (simp add: isSyntaxChar_def)
  have h: "CHR ''*'' \<in> set ''*.log'' \<and> \<not> suffix ''/'' ''*.log''
           \<and> (\<forall>c \<in> set ''*.log''. isSyntaxChar c \<longrightarrow> c = CHR ''*'' \<or> c = CHR ''.'')"
    by (simp add: suffix_def isSyntaxChar_def)
  have e: "shouldIgnorePath rejectingHost ''foo.log.bak'' [''*.log''] = Inr True"
    by (simp add: matcher_defs)
  from h wildcard_rule [of "''*.log''" rejectingHost "''foo.log.bak''"]
  have "shouldIgnorePath rejectingHost ''foo.log.bak'' [''*.log'']
          = Inr (\<exists>pre mid post. ''foo.log.bak'' = pre @ mid @ post
                   \<and> wildcardMatches notLineTerminator ''*.log'' mid)"
    by blast
  with e have "\<exists>pre mid post. ''foo.log.bak'' = pre @ mid @ post
                 \<and> wildcardMatches notLineTerminator ''*.log'' mid"
    by simp
  with f h e show ?thesis by blast
qed

text \<open>
  Claim C1 as stated lets \<^verbatim>\<open>*\<close> match any sequence of characters. The path made of
  \<^verbatim>\<open>a\<close>, a line feed and \<^verbatim>\<open>b\<close> matches \<^verbatim>\<open>a*b\<close> in that reading, with the line feed for the
  star; the code does not report a match, because \<^verbatim>\<open>.\<close> in \<^verbatim>\<open>a.*b\<close> does not match a line
  terminator.
\<close>

theorem wildcard_rule_counterexample:
  "wildcardMatches anyCharacter ''a*b'' [CHR ''a'', CHR 0x0A, CHR ''b'']
   \<and> shouldIgnorePath rejectingHost [CHR ''a'', CHR 0x0A, CHR ''b''] [''a*b''] = Inr False"
proof
  have "wildcardMatches anyCharacter ''*b'' [CHR 0x0A, CHR ''b'']"
    unfolding wildcardMatches_star
    by (intro exI [of _ "[CHR 0x0A]"] exI [of _ "''b''"]) (simp add: anyCharacter_def)
  then show "wildcardMatches anyCharacter ''a*b'' [CHR ''a'', CHR 0x0A, CHR ''b'']"
    by (simp del: wildcardMatches.simps add: wildcardMatches_char)
next
  show "shouldIgnorePath rejectingHost [CHR ''a'', CHR 0x0A, CHR ''b''] [''a*b''] = Inr False"
    by (simp add: matcher_defs)
qed

section \<open>The walk\<close>

lemma forEntries_Cons:
  "forEntries host (entry # rest) dirPath indent pats root acc =
     (case shouldIgnorePath host (relativePathOf root dirPath (name entry)) pats of
        Inl error \<Rightarrow> Inl error
      | Inr True \<Rightarrow> forEntries host rest dirPath indent pats root acc
      | Inr False \<Rightarrow> forEntries host rest dirPath indent pats root
                       (acc @ entryLines host entry dirPath indent pats root))"
  by (cases entry)
     (simp_all add: relativePathOf_def entryLines_def Let_def split: sum.splits bool.splits)

declare forEntries.simps(2) [simp del]

lemma forEntries_acc:
  "forEntries host es dirPath indent pats root acc =
     (case forEntries host es dirPath indent pats root [] of
        Inl error \<Rightarrow> Inl error
      | Inr lines \<Rightarrow> Inr (acc @ lines))"
proof (induction es arbitrary: acc)
  case Nil
  then show ?case by simp
next
  case (Cons e es)
  show ?case
    unfolding forEntries_Cons
    by (subst (1 2) Cons.IH, subst (3) Cons.IH) (simp split: sum.splits bool.splits)
qed

lemma indentOf_Suc: "indentOf depth @ ''  '' = indentOf (Suc depth)"
proof -
  have "''  '' = replicate 2 CHR '' ''" by (simp add: numeral_2_eq_2)
  then have "indentOf depth @ ''  '' = replicate (2 * depth + 2) CHR '' ''"
    unfolding indentOf_def by (simp only: replicate_add)
  then show ?thesis by (simp add: indentOf_def)
qed

lemma render_indentOf: "render (TreeLine depth t) = indentOf depth @ t"
  by (simp add: indentOf_def)

lemma getAll_Resolves:
  "getAllFilesAndFolders host (Resolves es) dirPath indent pats root =
     (case forEntries host es dirPath indent pats root [] of
        Inl error \<Rightarrow>
          Inl (ErrorObj (''Failed to read directory '' @ dirPath @ '': '' @ errorMessage error))
      | Inr result \<Rightarrow> Inr result)"
  by simp

lemma forEntries_walk:
  assumes nt: "\<forall>rp. \<exists>b. shouldIgnorePath host rp pats = Inr b"
  shows "forEntries host es dirPath (indentOf depth) pats root [] =
           Inr (map render (walk host es dirPath depth pats root))"
  using nt
proof (induction host es dirPath depth pats root rule: walk.induct)
  case (1 host directoryPath depth patterns rootPath)
  then show ?case by simp
next
  case (2 host entry rest directoryPath depth patterns rootPath)
  let ?rp = "relativePathOf rootPath directoryPath (name entry)"
  from "2.prems" obtain b where b: "shouldIgnorePath host ?rp patterns = Inr b" by blast
  show ?case
  proof (cases b)
    case True
    with b "2.IH"(1) "2.prems" show ?thesis
      by (simp add: forEntries_Cons)
  next
    case False
    with b have ni: "shouldIgnorePath host ?rp patterns \<noteq> Inr True" by simp
    have rest: "forEntries host rest directoryPath (indentOf depth) patterns rootPath [] =
                  Inr (map render (walk host rest directoryPath depth patterns rootPath))"
      using "2.IH"(3) [OF ni] "2.prems" by simp
    have lines: "entryLines host entry directoryPath (indentOf depth) patterns rootPath =
        map render
          (TreeLine depth (name entry)
           # (case entry of
                FileEntry n \<Rightarrow> []
              | DirEntry n (Rejects error) \<Rightarrow>
                  [TreeLine (depth + 1)
                     (''[Error reading directory: Failed to read directory ''
                      @ path_join directoryPath n @ '': '' @ errorMessage error @ '']'')]
              | DirEntry n (Resolves entries) \<Rightarrow>
                  walk host entries (path_join directoryPath n) (depth + 1) patterns rootPath))"
    proof (cases entry)
      case (FileEntry n)
      then show ?thesis by (simp add: entryLines_def indentOf_def)
    next
      case (DirEntry n sub)
      show ?thesis
      proof (cases sub)
        case (Rejects error)
        with DirEntry show ?thesis
          by (simp add: entryLines_def render_indentOf indentOf_Suc [symmetric] errorMessage_def
              del: render.simps)
      next
        case (Resolves entries)
        have "forEntries host entries (path_join directoryPath n) (indentOf (depth + 1))
                patterns rootPath [] =
              Inr (map render (walk host entries (path_join directoryPath n) (depth + 1)
                     patterns rootPath))"
          using "2.IH"(2) [OF ni DirEntry Resolves] "2.prems" by simp
        with DirEntry Resolves show ?thesis
          by (simp add: entryLines_def render_indentOf indentOf_Suc del: render.simps)
      qed
    qed
    show ?thesis
      unfolding forEntries_Cons
      using b False rest lines
      by (subst forEntries_acc) (simp del: render.simps)
  qed
qed


lemma forEntries_append:
  "forEntries host (xs @ ys) dirPath indent pats root acc =
     (case forEntries host xs dirPath indent pats root acc of
        Inl error \<Rightarrow> Inl error
      | Inr lines \<Rightarrow> forEntries host ys dirPath indent pats root lines)"
proof (induction xs arbitrary: acc)
  case Nil
  then show ?case by simp
next
  case (Cons x xs)
  then show ?case
    by (simp add: forEntries_Cons split: sum.splits bool.splits)
qed

lemma forEntries_withoutIgnored:
  "forEntries host (withoutIgnored host es dirPath pats root) dirPath indent pats root acc =
     forEntries host es dirPath indent pats root acc"
proof (induction host es dirPath pats root arbitrary: indent acc rule: withoutIgnored.induct)
  case (1 host dirPath patterns rootPath)
  then show ?case by simp
next
  case (2 host entry rest dirPath patterns rootPath)
  let ?rp = "relativePathOf rootPath dirPath (name entry)"
  show ?case
  proof (cases "shouldIgnorePath host ?rp patterns = Inr True")
    case True
    with "2.IH"(1) show ?thesis by (simp add: forEntries_Cons)
  next
    case ni: False
    let ?kept = "case entry of
              FileEntry n \<Rightarrow> entry
            | DirEntry n (Rejects error) \<Rightarrow> entry
            | DirEntry n (Resolves entries) \<Rightarrow>
                DirEntry n (Resolves (withoutIgnored host entries (path_join dirPath n) patterns rootPath))"
    have nm: "name ?kept = name entry"
      by (simp split: dirent.splits readdir.splits)
    have lines: "entryLines host ?kept dirPath indent patterns rootPath =
                 entryLines host entry dirPath indent patterns rootPath"
    proof (cases entry)
      case (FileEntry n)
      then show ?thesis by simp
    next
      case (DirEntry n sub)
      show ?thesis
      proof (cases sub)
        case (Rejects error)
        with DirEntry show ?thesis by simp
      next
        case (Resolves entries)
        with DirEntry "2.IH"(2) [OF ni DirEntry Resolves] show ?thesis
          by (simp add: entryLines_def)
      qed
    qed
    from ni "2.IH"(3) [OF ni] nm lines show ?thesis
      by (simp add: forEntries_Cons split: sum.splits bool.splits)
  qed
qed

text \<open>
  Claim C6. An entry whose relative path is ignored adds no line and is not descended
  into: walking a directory gives the same result, lines or thrown error, as walking it
  with that entry and everything beneath it removed, whatever is beneath it (even a
  directory that cannot be listed); and walking a tree gives the same result as walking
  it with all ignored entries removed at every level.
\<close>

theorem ignored_entries_are_skipped:
  "(shouldIgnorePath host (relativePathOf rootPath dirPath (name entry)) patterns = Inr True \<longrightarrow>
      getAllFilesAndFolders host (Resolves (before @ entry # after)) dirPath indent patterns rootPath
        = getAllFilesAndFolders host (Resolves (before @ after)) dirPath indent patterns rootPath)
   \<and> getAllFilesAndFolders host (Resolves (withoutIgnored host entries dirPath patterns rootPath))
        dirPath indent patterns rootPath
      = getAllFilesAndFolders host (Resolves entries) dirPath indent patterns rootPath"
  by (simp add: forEntries_append forEntries_Cons forEntries_withoutIgnored split: sum.splits)

theorem ignored_entries_are_skipped_witness:
  "shouldIgnorePath rejectingHost (relativePathOf ''/ws'' ''/ws'' (name (DirEntry ''node_modules''
       (Rejects (ErrorObj ''EACCES''))))) [''node_modules/''] = Inr True
   \<and> getAllFilesAndFolders rejectingHost
        (Resolves ([FileEntry ''a.txt'']
                   @ DirEntry ''node_modules'' (Rejects (ErrorObj ''EACCES'')) # [FileEntry ''z.txt'']))
        ''/ws'' [] [''node_modules/''] ''/ws''
      = getAllFilesAndFolders rejectingHost
        (Resolves ([FileEntry ''a.txt''] @ [FileEntry ''z.txt'']))
        ''/ws'' [] [''node_modules/''] ''/ws''
   \<and> getAllFilesAndFolders rejectingHost
        (Resolves [FileEntry ''a.txt'', DirEntry ''node_modules'' (Rejects (ErrorObj ''EACCES'')),
                   FileEntry ''z.txt''])
        ''/ws'' [] [''node_modules/''] ''/ws''
      = Inr [''a.txt'', ''z.txt'']"
proof -
  have h: "shouldIgnorePath rejectingHost (relativePathOf ''/ws'' ''/ws'' (name (DirEntry
       ''node_modules'' (Rejects (ErrorObj ''EACCES''))))) [''node_modules/''] = Inr True"
    by (simp add: relativePathOf_def path_join_def path_relative_def segments_def matcher_defs)
  have e: "getAllFilesAndFolders rejectingHost
        (Resolves [FileEntry ''a.txt'', DirEntry ''node_modules'' (Rejects (ErrorObj ''EACCES'')),
                   FileEntry ''z.txt''])
        ''/ws'' [] [''node_modules/''] ''/ws''
      = Inr [''a.txt'', ''z.txt'']"
    by (simp add: forEntries_Cons entryLines_def relativePathOf_def path_join_def
        path_relative_def segments_def matcher_defs)
  from h e ignored_entries_are_skipped [of rejectingHost "''/ws''" "''/ws''"
      "DirEntry ''node_modules'' (Rejects (ErrorObj ''EACCES''))" "[''node_modules/'']"
      "[FileEntry ''a.txt'']" "[FileEntry ''z.txt'']" "[]"]
  show ?thesis by simp
qed

text \<open>
  Claim C4. When the listing of a subdirectory fails, the walk of its parent goes on: the
  lines of the entries before it, the line of the subdirectory, exactly one line
  \<^verbatim>\<open>[Error reading directory: <message>]\<close> indented by two more spaces than the
  subdirectory's own line, then the lines of the entries after it. When the listing of
  the walked directory itself fails, the walk throws and returns no lines.
\<close>

theorem nested_read_failure_is_local:
  "(getAllFilesAndFolders host (Resolves before) dirPath indent patterns rootPath = Inr linesBefore
    \<and> shouldIgnorePath host (relativePathOf rootPath dirPath n) patterns = Inr False
    \<and> getAllFilesAndFolders host (Resolves after) dirPath indent patterns rootPath = Inr linesAfter
    \<longrightarrow> getAllFilesAndFolders host (Resolves (before @ DirEntry n (Rejects error) # after))
          dirPath indent patterns rootPath
        = Inr (linesBefore
               @ [indent @ n,
                  indent @ ''  [Error reading directory: Failed to read directory ''
                    @ path_join dirPath n @ '': '' @ errorMessage error @ '']'']
               @ linesAfter))
   \<and> getAllFilesAndFolders host (Rejects error) dirPath indent patterns rootPath
      = Inl (ErrorObj (''Failed to read directory '' @ dirPath @ '': '' @ errorMessage error))"
proof (intro conjI impI)
  assume a: "getAllFilesAndFolders host (Resolves before) dirPath indent patterns rootPath = Inr linesBefore
    \<and> shouldIgnorePath host (relativePathOf rootPath dirPath n) patterns = Inr False
    \<and> getAllFilesAndFolders host (Resolves after) dirPath indent patterns rootPath = Inr linesAfter"
  then have b: "forEntries host before dirPath indent patterns rootPath [] = Inr linesBefore"
    and r: "forEntries host after dirPath indent patterns rootPath [] = Inr linesAfter"
    by (simp_all split: sum.splits)
  have e: "entryLines host (DirEntry n (Rejects error)) dirPath indent patterns rootPath =
        [indent @ n,
         indent @ ''  [Error reading directory: Failed to read directory ''
           @ path_join dirPath n @ '': '' @ errorMessage error @ '']'']"
    by (simp add: entryLines_def errorMessage_def)
  show "getAllFilesAndFolders host (Resolves (before @ DirEntry n (Rejects error) # after))
          dirPath indent patterns rootPath
        = Inr (linesBefore
               @ [indent @ n,
                  indent @ ''  [Error reading directory: Failed to read directory ''
                    @ path_join dirPath n @ '': '' @ errorMessage error @ '']'']
               @ linesAfter)"
    using a b e
    by (simp add: forEntries_append forEntries_Cons forEntries_acc [where es = after and acc = "_ @ _"] r)
qed simp

theorem nested_read_failure_is_local_witness:
  "getAllFilesAndFolders rejectingHost (Resolves [FileEntry ''c.txt'']) ''/ws/b'' ''  ''
       [''*.log''] ''/ws'' = Inr [''  c.txt'']
   \<and> shouldIgnorePath rejectingHost (relativePathOf ''/ws'' ''/ws/b'' ''d'') [''*.log'']
       = Inr False
   \<and> getAllFilesAndFolders rejectingHost (Resolves [FileEntry ''e.txt'']) ''/ws/b'' ''  ''
       [''*.log''] ''/ws'' = Inr [''  e.txt'']
   \<and> getAllFilesAndFolders rejectingHost
        (Resolves ([FileEntry ''c.txt''] @ DirEntry ''d'' (Rejects (ErrorObj ''EACCES''))
                     # [FileEntry ''e.txt'']))
        ''/ws/b'' ''  '' [''*.log''] ''/ws''
      = Inr [''  c.txt'', ''  d'',
             ''    [Error reading directory: Failed to read directory /ws/b/d: EACCES]'',
             ''  e.txt'']"
proof -
  have h1: "getAllFilesAndFolders rejectingHost (Resolves [FileEntry ''c.txt'']) ''/ws/b'' ''  ''
       [''*.log''] ''/ws'' = Inr [''  c.txt'']"
    by (simp add: forEntries_Cons entryLines_def relativePathOf_def path_join_def
        path_relative_def segments_def matcher_defs)
  have h2: "shouldIgnorePath rejectingHost (relativePathOf ''/ws'' ''/ws/b'' ''d'') [''*.log'']
       = Inr False"
    by (simp add: relativePathOf_def path_join_def path_relative_def segments_def matcher_defs)
  have h3: "getAllFilesAndFolders rejectingHost (Resolves [FileEntry ''e.txt'']) ''/ws/b'' ''  ''
       [''*.log''] ''/ws'' = Inr [''  e.txt'']"
    by (simp add: forEntries_Cons entryLines_def relativePathOf_def path_join_def
        path_relative_def segments_def matcher_defs)
  from h1 h2 h3 nested_read_failure_is_local [of rejectingHost "[FileEntry ''c.txt'']"
      "''/ws/b''" "''  ''" "[''*.log'']" "''/ws''" "[''  c.txt'']" "''d''" "[FileEntry ''e.txt'']"
      "[''  e.txt'']" "ErrorObj ''EACCES''"]
  show ?thesis by (simp add: path_join_def errorMessage_def)
qed

text \<open>
  Claim C7. The lines of a walk are the rendered TreeLines of the specification's
  walk: two spaces per depth level followed by the bare name of the entry, the entries
  that are not ignored in pre-order and in the order of the listing. Walking
  \<^verbatim>\<open>root/{a.txt, b/{c.txt}}\<close> without ignore patterns gives \<^verbatim>\<open>a.txt\<close>, \<^verbatim>\<open>b\<close>, \<^verbatim>\<open>  c.txt\<close>.
  (The hypothesis leaves out pattern lists with which the matcher throws.)
\<close>

theorem tree_lines_rendering:
  "((\<forall>rp. \<exists>b. shouldIgnorePath host rp patterns = Inr b) \<longrightarrow>
      getAllFilesAndFolders host (Resolves entries) directoryPath
          (replicate (2 * depth) CHR '' '') patterns rootPath
        = Inr (map render (walk host entries directoryPath depth patterns rootPath)))
   \<and> getAllFilesAndFolders host
        (Resolves [FileEntry ''a.txt'', DirEntry ''b'' (Resolves [FileEntry ''c.txt''])])
        ''/root'' [] [] ''/root''
      = Inr [''a.txt'', ''b'', ''  c.txt'']"
proof (intro conjI impI)
  assume "\<forall>rp. \<exists>b. shouldIgnorePath host rp patterns = Inr b"
  from forEntries_walk [OF this]
  show "getAllFilesAndFolders host (Resolves entries) directoryPath
          (replicate (2 * depth) CHR '' '') patterns rootPath
        = Inr (map render (walk host entries directoryPath depth patterns rootPath))"
    by (simp add: indentOf_def del: render.simps)
next
  show "getAllFilesAndFolders host
        (Resolves [FileEntry ''a.txt'', DirEntry ''b'' (Resolves [FileEntry ''c.txt''])])
        ''/root'' [] [] ''/root''
      = Inr [''a.txt'', ''b'', ''  c.txt'']"
    by (simp add: forEntries_Cons entryLines_def)
qed

theorem tree_lines_rendering_witness:
  "(\<forall>rp. \<exists>b. shouldIgnorePath rejectingHost rp [''*.log'', ''dist/''] = Inr b)
   \<and> getAllFilesAndFolders rejectingHost
        (Resolves [DirEntry ''src'' (Resolves [FileEntry ''a.ts'', FileEntry ''a.log'']),
                   DirEntry ''dist'' (Resolves [FileEntry ''a.js'']),
                   FileEntry ''README.md''])
        ''/ws'' (replicate (2 * 0) CHR '' '') [''*.log'', ''dist/''] ''/ws''
      = Inr [''src'', ''  a.ts'', ''README.md'']"
proof -
  have h: "\<forall>rp. \<exists>b. shouldIgnorePath rejectingHost rp [''*.log'', ''dist/''] = Inr b"
    by (auto simp: matcher_defs split: sum.splits bool.splits)
  have w: "map render (walk rejectingHost
        [DirEntry ''src'' (Resolves [FileEntry ''a.ts'', FileEntry ''a.log'']),
         DirEntry ''dist'' (Resolves [FileEntry ''a.js'']),
         FileEntry ''README.md''] ''/ws'' 0 [''*.log'', ''dist/''] ''/ws'')
      = [''src'', ''  a.ts'', ''README.md'']"
    by (simp add: relativePathOf_def path_join_def path_relative_def segments_def matcher_defs
        numeral_2_eq_2)
  from h w tree_lines_rendering [of rejectingHost "[''*.log'', ''dist/'']"
      "[DirEntry ''src'' (Resolves [FileEntry ''a.ts'', FileEntry ''a.log'']),
        DirEntry ''dist'' (Resolves [FileEntry ''a.js'']),
        FileEntry ''README.md'']" "''/ws''" 0 "''/ws''"]
  show ?thesis by (simp only: simp_thms)
qed

section \<open>Pattern loading\<close>

lemma pieces_nonempty: "pieces s \<noteq> []"
  by (induction s) (auto split: list.splits)

lemma pieces_hd_empty:
  "pieces s = [] # xs \<Longrightarrow> xs \<noteq> [] \<Longrightarrow> \<exists>cs. s = CHR 0x0A # cs"
  by (cases s) (auto split: if_splits list.splits)

lemma splitLines_cur:
  "splitLines cur s = (cur @ hd (splitLines [] s)) # tl (splitLines [] s)"
proof (induction s arbitrary: cur)
  case Nil
  then show ?case by simp
next
  case (Cons c cs)
  show ?case
  proof (cases "c = CHR 0x0A \<or> (c = CHR 0x0D \<and> cs \<noteq> [] \<and> hd cs = CHR 0x0A)")
    case True
    then show ?thesis by auto
  next
    case False
    then have "splitLines cur (c # cs) = splitLines (cur @ [c]) cs"
      and "splitLines [] (c # cs) = splitLines [c] cs" by auto
    then show ?thesis
      using Cons.IH [of "cur @ [c]"] Cons.IH [of "[c]"] by simp
  qed
qed

lemma linesOf_LF: "linesOf (CHR 0x0A # cs) = [] # linesOf cs"
  by (simp add: linesOf_def pieces_nonempty withoutCR_def)

lemma linesOf_CRLF: "linesOf (CHR 0x0D # CHR 0x0A # cs) = [] # linesOf cs"
  by (simp add: linesOf_def pieces_nonempty withoutCR_def)

lemma linesOf_other:
  assumes "c \<noteq> CHR 0x0A" and "\<not> (c = CHR 0x0D \<and> cs \<noteq> [] \<and> hd cs = CHR 0x0A)"
  shows "linesOf (c # cs) = (c # hd (linesOf cs)) # tl (linesOf cs)"
proof -
  obtain x xs where p: "pieces cs = x # xs"
    using pieces_nonempty [of cs] by (cases "pieces cs") auto
  show ?thesis
  proof (cases "xs = []")
    case True
    with p assms show ?thesis by (simp add: linesOf_def)
  next
    case False
    have "withoutCR (c # x) = c # withoutCR x"
    proof (cases "x = []")
      case True
      with p False obtain cs' where "cs = CHR 0x0A # cs'"
        using pieces_hd_empty by blast
      with assms have "c \<noteq> CHR 0x0D" by auto
      with True show ?thesis by (simp add: withoutCR_def)
    next
      case False
      then show ?thesis by (simp add: withoutCR_def)
    qed
    with p False assms show ?thesis by (simp add: linesOf_def)
  qed
qed

lemma splitLines_linesOf: "splitLines [] s = linesOf s"
proof (induction s rule: length_induct)
  case (1 s)
  show ?case
  proof (cases s)
    case Nil
    then show ?thesis by (simp add: linesOf_def)
  next
    case (Cons c cs)
    have ih: "splitLines [] cs = linesOf cs" using 1 Cons by simp
    show ?thesis
    proof (cases "c = CHR 0x0A")
      case True
      with Cons ih show ?thesis by (simp add: linesOf_LF)
    next
      case nlf: False
      show ?thesis
      proof (cases "c = CHR 0x0D \<and> cs \<noteq> [] \<and> hd cs = CHR 0x0A")
        case True
        then obtain cs' where cs': "cs = CHR 0x0A # cs'" by (cases cs) auto
        have "splitLines [] cs' = linesOf cs'" using 1 Cons cs' by simp
        with Cons True cs' show ?thesis by (simp add: linesOf_CRLF)
      next
        case False
        with nlf have "splitLines [] (c # cs) = splitLines [c] cs" by auto
        also have "\<dots> = (c # hd (splitLines [] cs)) # tl (splitLines [] cs)"
          using splitLines_cur [of "[c]" cs] by simp
        also have "\<dots> = linesOf (c # cs)"
          using linesOf_other [OF nlf False] ih by simp
        finally show ?thesis using Cons by simp
      qed
    qed
  qed
qed

lemma trim_decompose:
  "\<exists>a b. line = a @ trim line @ b \<and> list_all isWhiteSpace a \<and> list_all isWhiteSpace b"
proof -
  let ?d = "dropWhile isWhiteSpace line"
  have 1: "line = takeWhile isWhiteSpace line @ ?d" by simp
  have "rev (takeWhile isWhiteSpace (rev ?d) @ dropWhile isWhiteSpace (rev ?d)) = rev (rev ?d)"
    by (simp only: takeWhile_dropWhile_id)
  then have "rev (dropWhile isWhiteSpace (rev ?d)) @ rev (takeWhile isWhiteSpace (rev ?d)) = ?d"
    by (simp only: rev_append rev_rev_ident)
  then have 2: "?d = trim line @ rev (takeWhile isWhiteSpace (rev ?d))"
    by (simp only: trim_def)
  have 3: "list_all isWhiteSpace (takeWhile isWhiteSpace line)"
    by (simp add: list_all_iff) (meson set_takeWhileD)
  have 4: "list_all isWhiteSpace (rev (takeWhile isWhiteSpace (rev ?d)))"
    by (simp add: list_all_iff) (meson set_takeWhileD)
  from 1 2 have "line = takeWhile isWhiteSpace line @ trim line @ rev (takeWhile isWhiteSpace (rev ?d))"
    by simp
  with 3 4 show ?thesis by blast
qed

lemma last_dropWhile_nonempty:
  "dropWhile P xs \<noteq> [] \<Longrightarrow> last (dropWhile P xs) = last xs"
  by (induction xs) (auto split: if_splits)

lemma trim_ends:
  assumes "trim line \<noteq> []"
  shows "\<not> isWhiteSpace (hd (trim line)) \<and> \<not> isWhiteSpace (last (trim line))"
proof -
  let ?d = "dropWhile isWhiteSpace line"
  let ?e = "dropWhile isWhiteSpace (rev ?d)"
  from assms have e: "?e \<noteq> []" by (simp add: trim_def)
  have d: "?d \<noteq> []"
  proof
    assume a: "?d = []"
    have "?e = []" by (simp only: a rev.simps dropWhile.simps)
    with e show False by blast
  qed
  have "last (trim line) = hd ?e" using e by (simp add: trim_def last_rev)
  moreover have "\<not> isWhiteSpace (hd ?e)" using e hd_dropWhile by blast
  moreover have "hd (trim line) = last ?e" using e by (simp add: trim_def hd_rev)
  moreover have "last ?e = last (rev ?d)" using e by (rule last_dropWhile_nonempty)
  moreover have "last (rev ?d) = hd ?d" using d by (simp add: last_rev)
  moreover have "\<not> isWhiteSpace (hd ?d)" using d hd_dropWhile by blast
  ultimately show ?thesis by simp
qed

text \<open>
  Claim C9, as amended. \<open>loadIgnorePatterns\<close> splits the text of the ignore file at
  LF and CR LF, trims the white space at both ends of every line, drops every line that
  is then empty or starts with \<^verbatim>\<open>#\<close>, and returns the remaining trimmed lines; when the
  file cannot be read, the pattern list is empty. Trimming removes white space at the
  two ends only and leaves no white space there.
\<close>

theorem pattern_loading:
  "loadIgnorePatterns (Inr content)
     = filter (\<lambda>line. line \<noteq> [] \<and> \<not> prefix ''#'' line) (map trim (linesOf content))
   \<and> loadIgnorePatterns (Inl error) = []
   \<and> (\<exists>a b. line = a @ trim line @ b \<and> list_all isWhiteSpace a \<and> list_all isWhiteSpace b)
   \<and> (trim line \<noteq> [] \<longrightarrow> \<not> isWhiteSpace (hd (trim line)) \<and> \<not> isWhiteSpace (last (trim line)))"
proof (intro conjI)
  show "loadIgnorePatterns (Inr content)
     = filter (\<lambda>line. line \<noteq> [] \<and> \<not> prefix ''#'' line) (map trim (linesOf content))"
    by (simp add: loadIgnorePatterns_def splitLines_linesOf startsWith_prefix)
  show "loadIgnorePatterns (Inl error) = []"
    by (simp add: loadIgnorePatterns_def)
  show "\<exists>a b. line = a @ trim line @ b \<and> list_all isWhiteSpace a \<and> list_all isWhiteSpace b"
    by (rule trim_decompose)
  show "trim line \<noteq> [] \<longrightarrow> \<not> isWhiteSpace (hd (trim line)) \<and> \<not> isWhiteSpace (last (trim line))"
    using trim_ends by blast
qed

theorem pattern_loading_witness:
  "trim ''  src '' \<noteq> []
   \<and> \<not> isWhiteSpace (hd (trim ''  src '')) \<and> \<not> isWhiteSpace (last (trim ''  src ''))
   \<and> loadIgnorePatterns
        (Inr (''# build'' @ [CHR 0x0D, CHR 0x0A] @ ''  src '' @ [CHR 0x0A, CHR 0x0A] @ ''*.log''))
      = [''src'', ''*.log'']"
proof -
  have h: "trim ''  src '' \<noteq> []"
    by (simp add: trim_def isWhiteSpace_def)
  have e: "loadIgnorePatterns
        (Inr (''# build'' @ [CHR 0x0D, CHR 0x0A] @ ''  src '' @ [CHR 0x0A, CHR 0x0A] @ ''*.log''))
      = [''src'', ''*.log'']"
    by (simp add: loadIgnorePatterns_def trim_def isWhiteSpace_def)
  from h e pattern_loading [of _ _ "''  src ''"] show ?thesis by blast
qed

text \<open>
  Claim C9 as stated returns the remaining lines themselves. For a file whose only
  line is \<^verbatim>\<open>src\<close> after one space the remaining line has the space, the loaded pattern
  does not.
\<close>

theorem pattern_loading_counterexample:
  "remainingLines '' src'' = ['' src''] \<and> loadIgnorePatterns (Inr '' src'') = [''src'']"
  by (simp add: remainingLines_def linesOf_def loadIgnorePatterns_def trim_def isWhiteSpace_def)

section \<open>Several roots\<close>

lemma forWorkspaceFolders_map:
  "forWorkspaceFolders host count folders results =
     results @ map (processWorkspace host count) folders"
  by (induction folders arbitrary: results) simp_all

lemma processWorkspace_rootLines:
  "processWorkspace host count folder =
     (if count > 1
      then CHR 0x0A # ''=== Workspace: '' @ wsName folder @ '' ==='' @ CHR 0x0A
             # joinWith [CHR 0x0A] (rootLines host folder)
      else joinWith [CHR 0x0A] (rootLines host folder))"
  by (simp add: processWorkspace_def rootLines_def split: sum.splits)

text \<open>
  Claim C8. Each root gives its own line sequence. With more than one root the text
  handed out is, in the order of the roots, for each root an empty line, the banner
  \<^verbatim>\<open>=== Workspace: <name> ===\<close> and the root's lines, all joined by line feeds; with a
  single root it is the root's lines joined by line feeds, without a banner.
\<close>

theorem multi_root_banners:
  "(1 < length folders \<and> fileName \<noteq> [] \<longrightarrow>
      extractFileStructure host folders (Some fileName)
        = Some (joinWith [CHR 0x0A]
                  (map (\<lambda>folder. CHR 0x0A # ''=== Workspace: '' @ wsName folder @ '' ==='' @ CHR 0x0A
                                   # joinWith [CHR 0x0A] (rootLines host folder))
                       folders)))
   \<and> (fileName \<noteq> [] \<longrightarrow>
      extractFileStructure host [folder] (Some fileName)
        = Some (joinWith [CHR 0x0A] (rootLines host folder)))"
proof (intro conjI impI)
  assume a: "1 < length folders \<and> fileName \<noteq> []"
  then have "folders \<noteq> []" by auto
  moreover from a have "processWorkspace host (length folders)
      = (\<lambda>folder. CHR 0x0A # ''=== Workspace: '' @ wsName folder @ '' ==='' @ CHR 0x0A
                     # joinWith [CHR 0x0A] (rootLines host folder))"
    by (intro ext) (simp add: processWorkspace_rootLines)
  ultimately show "extractFileStructure host folders (Some fileName)
        = Some (joinWith [CHR 0x0A]
                  (map (\<lambda>folder. CHR 0x0A # ''=== Workspace: '' @ wsName folder @ '' ==='' @ CHR 0x0A
                                   # joinWith [CHR 0x0A] (rootLines host folder))
                       folders))"
    using a by (simp add: extractFileStructure_def forWorkspaceFolders_map)
next
  assume "fileName \<noteq> []"
  then show "extractFileStructure host [folder] (Some fileName)
        = Some (joinWith [CHR 0x0A] (rootLines host folder))"
    by (simp add: extractFileStructure_def forWorkspaceFolders_map processWorkspace_rootLines)
qed

theorem multi_root_banners_witness:
  "1 < length [\<lparr>wsName = ''A'', fsPath = ''/A'', ignoreFileAccess = True, ignoreFileWrite = None,
                ignoreFileRead = Inr ''*.log'',
                rootListing = Resolves [FileEntry ''a.txt'', FileEntry ''a.log'']\<rparr>,
               \<lparr>wsName = ''B'', fsPath = ''/B'', ignoreFileAccess = False, ignoreFileWrite = None,
                ignoreFileRead = Inl (ErrorObj ''ENOENT''),
                rootListing = Resolves [DirEntry ''b'' (Resolves [FileEntry ''c.txt''])]\<rparr>]
   \<and> ''out.txt'' \<noteq> []
   \<and> extractFileStructure rejectingHost
        [\<lparr>wsName = ''A'', fsPath = ''/A'', ignoreFileAccess = True, ignoreFileWrite = None,
          ignoreFileRead = Inr ''*.log'',
          rootListing = Resolves [FileEntry ''a.txt'', FileEntry ''a.log'']\<rparr>,
         \<lparr>wsName = ''B'', fsPath = ''/B'', ignoreFileAccess = False, ignoreFileWrite = None,
          ignoreFileRead = Inl (ErrorObj ''ENOENT''),
          rootListing = Resolves [DirEntry ''b'' (Resolves [FileEntry ''c.txt''])]\<rparr>]
        (Some ''out.txt'')
      = Some (CHR 0x0A # ''=== Workspace: A ==='' @ CHR 0x0A # ''a.txt'' @ CHR 0x0A
              # CHR 0x0A # ''=== Workspace: B ==='' @ CHR 0x0A # ''b'' @ CHR 0x0A # ''  c.txt'')
   \<and> extractFileStructure rejectingHost
        [\<lparr>wsName = ''A'', fsPath = ''/A'', ignoreFileAccess = True, ignoreFileWrite = None,
          ignoreFileRead = Inr ''*.log'',
          rootListing = Resolves [FileEntry ''a.txt'', FileEntry ''a.log'']\<rparr>]
        (Some ''out.txt'')
      = Some ''a.txt''"
  using multi_root_banners [of
      "[\<lparr>wsName = ''A'', fsPath = ''/A'', ignoreFileAccess = True, ignoreFileWrite = None,
          ignoreFileRead = Inr ''*.log'',
          rootListing = Resolves [FileEntry ''a.txt'', FileEntry ''a.log'']\<rparr>,
         \<lparr>wsName = ''B'', fsPath = ''/B'', ignoreFileAccess = False, ignoreFileWrite = None,
          ignoreFileRead = Inl (ErrorObj ''ENOENT''),
          rootListing = Resolves [DirEntry ''b'' (Resolves [FileEntry ''c.txt''])]\<rparr>]"
      "''out.txt''" rejectingHost
      "\<lparr>wsName = ''A'', fsPath = ''/A'', ignoreFileAccess = True, ignoreFileWrite = None,
          ignoreFileRead = Inr ''*.log'',
          rootListing = Resolves [FileEntry ''a.txt'', FileEntry ''a.log'']\<rparr>"]
  by (simp add: rootLines_def ensureFileTreeIgnoreExists_def loadIgnorePatterns_def trim_def
      isWhiteSpace_def forEntries_Cons entryLines_def relativePathOf_def path_join_def
      path_relative_def segments_def matcher_defs)

end
